theory Spec2Isabelle
  imports Main
begin

section \<open>Data model\<close>

text \<open>
  A parsed JSON value, as Python's \<^verbatim>\<open>json.loads\<close> returns it: \<^verbatim>\<open>None\<close>, \<^verbatim>\<open>bool\<close>,
  \<^verbatim>\<open>int\<close> (unbounded), \<^verbatim>\<open>float\<close>, \<^verbatim>\<open>str\<close>, \<^verbatim>\<open>list\<close> and \<^verbatim>\<open>dict\<close>. The
  representation of floats is the type parameter \<open>'f\<close>: nothing in the loader looks
  inside a float. A \<^verbatim>\<open>dict\<close> is an association list in insertion order; the dicts
  that \<^verbatim>\<open>json.loads\<close> builds have pairwise distinct keys. A \<^verbatim>\<open>str\<close> is a \<open>string\<close>,
  so the embedding covers the code points below 256.
\<close>

datatype 'f json =
    JNull
  | JBool bool
  | JInt int
  | JFloat 'f
  | JStr string
  | JArr "'f json list"
  | JObj "(string \<times> 'f json) list"

type_synonym 'f dict = "(string \<times> 'f json) list"

text \<open>
  The exceptions that can leave \<^verbatim>\<open>load\<close>: the one raised by \<^verbatim>\<open>Path.read_text\<close>
  (an \<^verbatim>\<open>OSError\<close> or a decoding error), the one raised by \<^verbatim>\<open>json.loads\<close>
  (\<^verbatim>\<open>JSONDecodeError\<close>), and the \<^verbatim>\<open>TypeError\<close> of \<^verbatim>\<open>str + non-str\<close>.
\<close>

datatype error = FileAccessError | ParseError | TypeError

text \<open>\<^verbatim>\<open>Document(page_content=..., metadata=...)\<close>.\<close>

record 'f document =
  page_content :: string
  metadata :: "'f dict"

text \<open>
  The loader object: \<^verbatim>\<open>self.file_path\<close> (already resolved, as a string) and
  \<^verbatim>\<open>self._metadata_func\<close> (\<^verbatim>\<open>None\<close> when not supplied).
\<close>

record 'f loader =
  file_path :: string
  metadata_func :: "('f dict \<Rightarrow> 'f dict \<Rightarrow> 'f dict) option"

text \<open>
  What the loader calls outside the repository: reading the file (\<open>None\<close> when
  \<^verbatim>\<open>read_text\<close> raises), parsing (\<open>None\<close> when \<^verbatim>\<open>json.loads\<close> raises), and the
  printing of a float by \<^verbatim>\<open>json.dumps\<close>.
\<close>

record 'f env =
  read_text :: "string \<Rightarrow> string option"
  json_loads :: "string \<Rightarrow> 'f json option"
  float_repr :: "'f \<Rightarrow> string"

section \<open>Python primitives used by the loader\<close>

text \<open>\<^verbatim>\<open>d[k] = v\<close> on an insertion-ordered dict: an existing key keeps its place.\<close>

fun dict_set :: "string \<Rightarrow> 'v \<Rightarrow> (string \<times> 'v) list \<Rightarrow> (string \<times> 'v) list" where
  "dict_set k v [] = [(k, v)]"
| "dict_set k v ((k', v') # rest) =
     (if k' = k then (k', v) # rest else (k', v') # dict_set k v rest)"

text \<open>\<^verbatim>\<open>str(i)\<close> for a non-negative and for an arbitrary \<^verbatim>\<open>int\<close>.\<close>

fun str_nat :: "nat \<Rightarrow> string" where
  "str_nat n =
     (if n < 10 then [''0123456789'' ! n]
      else str_nat (n div 10) @ [''0123456789'' ! (n mod 10)])"

declare str_nat.simps [simp del]

definition str_int :: "int \<Rightarrow> string" where
  "str_int i = (if i < 0 then ''-'' @ str_nat (nat (- i)) else str_nat (nat i))"

text \<open>
  \<^verbatim>\<open>str + x\<close>: concatenation when \<^verbatim>\<open>x\<close> is a \<^verbatim>\<open>str\<close>, \<^verbatim>\<open>TypeError\<close> otherwise.
\<close>

fun str_add :: "string \<Rightarrow> 'f json \<Rightarrow> error + string" where
  "str_add s (JStr t) = Inr (s @ t)"
| "str_add s _ = Inl TypeError"

subsection \<open>\<^verbatim>\<open>json.dumps\<close> with its default arguments\<close>

text \<open>
  The standard library's encoder with \<^verbatim>\<open>ensure_ascii=True\<close> and the separators
  \<^verbatim>\<open>', '\<close> and \<^verbatim>\<open>': '\<close>. In a string, the backslash, the double quote and the
  characters outside \<^verbatim>\<open>' '..'~'\<close> are escaped.
\<close>

definition hex_digit :: "nat \<Rightarrow> char" where
  "hex_digit n = ''0123456789abcdef'' ! n"

definition escape_char :: "char \<Rightarrow> string" where
  "escape_char c =
     (if c = CHR 0x5C then [CHR 0x5C, CHR 0x5C]
      else if c = CHR 0x22 then [CHR 0x5C, CHR 0x22]
      else if c = CHR 0x08 then [CHR 0x5C, CHR ''b'']
      else if c = CHR 0x0C then [CHR 0x5C, CHR ''f'']
      else if c = CHR 0x0A then [CHR 0x5C, CHR ''n'']
      else if c = CHR 0x0D then [CHR 0x5C, CHR ''r'']
      else if c = CHR 0x09 then [CHR 0x5C, CHR ''t'']
      else if 0x20 \<le> (of_char c :: nat) \<and> (of_char c :: nat) \<le> 0x7E then [c]
      else [CHR 0x5C, CHR ''u'', CHR ''0'', CHR ''0'',
            hex_digit ((of_char c :: nat) div 16), hex_digit ((of_char c :: nat) mod 16)])"

definition encode_str :: "string \<Rightarrow> string" where
  "encode_str s = [CHR 0x22] @ concat (map escape_char s) @ [CHR 0x22]"

fun dumps :: "('f \<Rightarrow> string) \<Rightarrow> 'f json \<Rightarrow> string"
and dumps_elems :: "('f \<Rightarrow> string) \<Rightarrow> 'f json list \<Rightarrow> string"
and dumps_items :: "('f \<Rightarrow> string) \<Rightarrow> (string \<times> 'f json) list \<Rightarrow> string"
where
  "dumps fr JNull = ''null''"
| "dumps fr (JBool b) = (if b then ''true'' else ''false'')"
| "dumps fr (JInt i) = str_int i"
| "dumps fr (JFloat x) = fr x"
| "dumps fr (JStr s) = encode_str s"
| "dumps fr (JArr xs) = ''['' @ dumps_elems fr xs @ '']''"
| "dumps fr (JObj kvs) = ''{'' @ dumps_items fr kvs @ ''}''"
| "dumps_elems fr [] = []"
| "dumps_elems fr [x] = dumps fr x"
| "dumps_elems fr (x # y # ys) = dumps fr x @ '', '' @ dumps_elems fr (y # ys)"
| "dumps_items fr [] = []"
| "dumps_items fr [(k, v)] = encode_str k @ '': '' @ dumps fr v"
| "dumps_items fr ((k, v) # kv # kvs) =
     encode_str k @ '': '' @ dumps fr v @ '', '' @ dumps_items fr (kv # kvs)"

section \<open>The flattener: \<^verbatim>\<open>_flatten__nested_json\<close>\<close>

text \<open>
  \<^verbatim>\<open>a[a['identifier']]\<close> inside the \<^verbatim>\<open>try\<close>: \<open>None\<close> when it raises. It raises when
  \<^verbatim>\<open>a\<close> is not a dict (\<^verbatim>\<open>TypeError\<close>), when the dict has no key \<^verbatim>\<open>'identifier'\<close>
  (\<^verbatim>\<open>KeyError\<close>), when the value under \<^verbatim>\<open>'identifier'\<close> is a list or a dict
  (unhashable, \<^verbatim>\<open>TypeError\<close>) or another non-string (no such key among the string
  keys of a parsed object, \<^verbatim>\<open>KeyError\<close>), and when it is a string that is not a key.
\<close>

fun lookup_identifier :: "'f json \<Rightarrow> 'f json option" where
  "lookup_identifier (JObj kvs) =
     (case map_of kvs ''identifier'' of
        Some (JStr k) \<Rightarrow> map_of kvs k
      | _ \<Rightarrow> None)"
| "lookup_identifier _ = None"

text \<open>
  The \<^verbatim>\<open>try\<close>/\<^verbatim>\<open>except\<close> block of the list branch: the value bound to
  \<^verbatim>\<open>identifier\<close> for the element \<^verbatim>\<open>a\<close> at index \<^verbatim>\<open>i\<close>.
\<close>

definition identifier_of :: "'f json \<Rightarrow> nat \<Rightarrow> 'f json" where
  "identifier_of a i =
     (case lookup_identifier a of Some v \<Rightarrow> v | None \<Rightarrow> JStr (str_nat i))"

text \<open>
  \<^verbatim>\<open>flatten_json(json_data, key_name)\<close> with the enclosing dict \<^verbatim>\<open>out\<close> passed
  and returned. \<open>flatten_dict_loop\<close> is the \<^verbatim>\<open>for\<close> loop of the dict branch over the
  remaining entries (the loop reads \<^verbatim>\<open>json_data[a]\<close> for each key \<^verbatim>\<open>a\<close>, which is
  the entry's value), \<open>flatten_list_loop\<close> the \<^verbatim>\<open>for\<close> loop of the list branch over
  the remaining elements with the counter \<^verbatim>\<open>i\<close>. An exception ends the traversal.
\<close>

fun flatten_json :: "'f json \<Rightarrow> string \<Rightarrow> 'f dict \<Rightarrow> error + 'f dict"
and flatten_dict_loop :: "(string \<times> 'f json) list \<Rightarrow> string \<Rightarrow> 'f dict \<Rightarrow> error + 'f dict"
and flatten_list_loop :: "'f json list \<Rightarrow> nat \<Rightarrow> string \<Rightarrow> 'f dict \<Rightarrow> error + 'f dict"
where
  "flatten_json (JObj kvs) key_name out = flatten_dict_loop kvs key_name out"
| "flatten_json (JArr xs) key_name out = flatten_list_loop xs 0 key_name out"
| "flatten_json v key_name out = Inr (dict_set (butlast key_name) v out)"
| "flatten_dict_loop [] key_name out = Inr out"
| "flatten_dict_loop ((a, v) # rest) key_name out =
     (if a = ''identifier'' then flatten_dict_loop rest key_name out
      else case flatten_json v (key_name @ a @ ''_'') out of
             Inl e \<Rightarrow> Inl e
           | Inr out' \<Rightarrow> flatten_dict_loop rest key_name out')"
| "flatten_list_loop [] i key_name out = Inr out"
| "flatten_list_loop (a # rest) i key_name out =
     (case str_add key_name (identifier_of a i) of
        Inl e \<Rightarrow> Inl e
      | Inr p \<Rightarrow>
          (case flatten_json a (p @ ''_'') out of
             Inl e \<Rightarrow> Inl e
           | Inr out' \<Rightarrow> flatten_list_loop rest (i + 1) key_name out'))"

definition flatten_nested_json :: "'f env \<Rightarrow> string \<Rightarrow> error + 'f dict" where
  "flatten_nested_json env json_text =
     (case json_loads env json_text of
        None \<Rightarrow> Inl ParseError
      | Some json_data \<Rightarrow> flatten_json json_data [] [])"

section \<open>The record emitter: \<^verbatim>\<open>load\<close>\<close>

text \<open>
  The value of \<^verbatim>\<open>text\<close> after \<^verbatim>\<open>text = dict([text]) or ""\<close>: the dict when it is
  truthy (not empty), the empty string otherwise.
\<close>

datatype 'f page_text = TDict "'f dict" | TStr string

definition dict_or_empty :: "'f dict \<Rightarrow> 'f page_text" where
  "dict_or_empty d = (if d \<noteq> [] then TDict d else TStr [])"

text \<open>
  The body of the \<^verbatim>\<open>for\<close> loop for the entry \<^verbatim>\<open>sample\<close> with counter \<^verbatim>\<open>i\<close>, and
  the loop over \<^verbatim>\<open>enumerate(data.items(), 1)\<close>. The body does not read
  \<^verbatim>\<open>self._metadata_func\<close>.
\<close>

definition make_document :: "'f env \<Rightarrow> 'f loader \<Rightarrow> nat \<Rightarrow> string \<times> 'f json \<Rightarrow> 'f document" where
  "make_document env self i sample =
     (let metadata = [(''source'', JStr (file_path self)), (''seq_num'', JInt (int i))];
          text = dict_or_empty [sample];
          text = (case text of
                    TDict d \<Rightarrow> dumps (float_repr env) (JObj d)
                  | TStr s \<Rightarrow> s)
      in \<lparr>page_content = text, metadata = metadata\<rparr>)"

fun load_loop :: "'f env \<Rightarrow> 'f loader \<Rightarrow> nat \<Rightarrow> 'f dict \<Rightarrow> 'f document list" where
  "load_loop env self i [] = []"
| "load_loop env self i (sample # rest) =
     make_document env self i sample # load_loop env self (i + 1) rest"

definition load :: "'f env \<Rightarrow> 'f loader \<Rightarrow> error + 'f document list" where
  "load env self =
     (case read_text env (file_path self) of
        None \<Rightarrow> Inl FileAccessError
      | Some json_text \<Rightarrow>
          (case flatten_nested_json env json_text of
             Inl e \<Rightarrow> Inl e
           | Inr data \<Rightarrow> Inr (load_loop env self 1 data)))"

section \<open>Views of the traversal used in the statements\<close>

text \<open>The values on which \<^verbatim>\<open>flatten_json\<close> takes its \<^verbatim>\<open>else\<close> branch.\<close>

fun is_scalar :: "'f json \<Rightarrow> bool" where
  "is_scalar (JObj kvs) = False"
| "is_scalar (JArr xs) = False"
| "is_scalar v = True"

text \<open>
  The executions of the assignment \<^verbatim>\<open>out[key_name[:-1]] = json_data\<close> during
  \<^verbatim>\<open>flatten_json(json_data, key_name)\<close>, in the order of the traversal: each is the
  pair of the accumulated \<^verbatim>\<open>key_name\<close> and the leaf value. The traversal is the one of
  \<open>flatten_json\<close>, without the dict; \<open>record_writes\<close> replays the assignments on a
  dict (lemma \<open>flatten_json_record_writes\<close> below relates the two).
\<close>

fun leaf_writes :: "'f json \<Rightarrow> string \<Rightarrow> error + (string \<times> 'f json) list"
and dict_writes :: "(string \<times> 'f json) list \<Rightarrow> string \<Rightarrow> error + (string \<times> 'f json) list"
and list_writes :: "'f json list \<Rightarrow> nat \<Rightarrow> string \<Rightarrow> error + (string \<times> 'f json) list"
where
  "leaf_writes (JObj kvs) key_name = dict_writes kvs key_name"
| "leaf_writes (JArr xs) key_name = list_writes xs 0 key_name"
| "leaf_writes v key_name = Inr [(key_name, v)]"
| "dict_writes [] key_name = Inr []"
| "dict_writes ((a, v) # rest) key_name =
     (if a = ''identifier'' then dict_writes rest key_name
      else case leaf_writes v (key_name @ a @ ''_'') of
             Inl e \<Rightarrow> Inl e
           | Inr ws \<Rightarrow>
               (case dict_writes rest key_name of
                  Inl e \<Rightarrow> Inl e
                | Inr ws' \<Rightarrow> Inr (ws @ ws')))"
| "list_writes [] i key_name = Inr []"
| "list_writes (a # rest) i key_name =
     (case str_add key_name (identifier_of a i) of
        Inl e \<Rightarrow> Inl e
      | Inr p \<Rightarrow>
          (case leaf_writes a (p @ ''_'') of
             Inl e \<Rightarrow> Inl e
           | Inr ws \<Rightarrow>
               (case list_writes rest (i + 1) key_name of
                  Inl e \<Rightarrow> Inl e
                | Inr ws' \<Rightarrow> Inr (ws @ ws'))))"

definition record_writes :: "'f dict \<Rightarrow> (string \<times> 'f json) list \<Rightarrow> 'f dict" where
  "record_writes out ws = foldl (\<lambda>out (p, v). dict_set (butlast p) v out) out ws"

text \<open>
  The scalar leaves of a JSON tree in document order: all of them (\<open>scalar_leaves\<close>),
  and those that do not lie under an object entry whose key is \<^verbatim>\<open>'identifier'\<close>
  (\<open>emitted_leaves\<close>).
\<close>

fun scalar_leaves :: "'f json \<Rightarrow> 'f json list"
and scalar_leaves_dict :: "(string \<times> 'f json) list \<Rightarrow> 'f json list"
and scalar_leaves_list :: "'f json list \<Rightarrow> 'f json list"
where
  "scalar_leaves (JObj kvs) = scalar_leaves_dict kvs"
| "scalar_leaves (JArr xs) = scalar_leaves_list xs"
| "scalar_leaves v = [v]"
| "scalar_leaves_dict [] = []"
| "scalar_leaves_dict ((a, v) # rest) = scalar_leaves v @ scalar_leaves_dict rest"
| "scalar_leaves_list [] = []"
| "scalar_leaves_list (a # rest) = scalar_leaves a @ scalar_leaves_list rest"

fun emitted_leaves :: "'f json \<Rightarrow> 'f json list"
and emitted_leaves_dict :: "(string \<times> 'f json) list \<Rightarrow> 'f json list"
and emitted_leaves_list :: "'f json list \<Rightarrow> 'f json list"
where
  "emitted_leaves (JObj kvs) = emitted_leaves_dict kvs"
| "emitted_leaves (JArr xs) = emitted_leaves_list xs"
| "emitted_leaves v = [v]"
| "emitted_leaves_dict [] = []"
| "emitted_leaves_dict ((a, v) # rest) =
     (if a = ''identifier'' then emitted_leaves_dict rest
      else emitted_leaves v @ emitted_leaves_dict rest)"
| "emitted_leaves_list [] = []"
| "emitted_leaves_list (a # rest) = emitted_leaves a @ emitted_leaves_list rest"

text \<open>A key that ends with the separator.\<close>

definition ends_with_sep :: "string \<Rightarrow> bool" where
  "ends_with_sep k = (k \<noteq> [] \<and> last k = CHR ''_'')"

text \<open>
  A JSON tree (\<open>root\<close> tells whether the value is the root of the document) in which
  every object entry that holds a scalar, other than the skipped \<^verbatim>\<open>'identifier'\<close>
  entries and what lies under them, has a key that does not end with an underscore and
  that is empty only in the root object.
\<close>

fun sep_free_keys :: "bool \<Rightarrow> 'f json \<Rightarrow> bool"
and sep_free_dict :: "bool \<Rightarrow> (string \<times> 'f json) list \<Rightarrow> bool"
and sep_free_list :: "'f json list \<Rightarrow> bool"
where
  "sep_free_keys root (JObj kvs) = sep_free_dict root kvs"
| "sep_free_keys root (JArr xs) = sep_free_list xs"
| "sep_free_keys root v = True"
| "sep_free_dict root [] = True"
| "sep_free_dict root ((a, v) # rest) =
     ((a = ''identifier''
       \<or> ((is_scalar v \<longrightarrow> (if a = [] then root else last a \<noteq> CHR ''_''))
          \<and> sep_free_keys False v))
      \<and> sep_free_dict root rest)"
| "sep_free_list [] = True"
| "sep_free_list (a # rest) = (sep_free_keys False a \<and> sep_free_list rest)"

section \<open>Concrete inputs\<close>

text \<open>
  An environment with one readable file: \<open>path\<close> holds \<open>json_text\<close>, which parses to
  \<open>json_data\<close>; every other path is unreadable and every other text is malformed.
\<close>

definition file_env :: "string \<Rightarrow> string \<Rightarrow> 'f json \<Rightarrow> 'f env" where
  "file_env path json_text json_data =
     \<lparr>read_text = (\<lambda>p. if p = path then Some json_text else None),
      json_loads = (\<lambda>s. if s = json_text then Some json_data else None),
      float_repr = (\<lambda>x. ''0.0'')\<rparr>"

text \<open>The example of the class docstring.\<close>

definition docstring_example :: "'f json" where
  "docstring_example =
     JObj [(''key'',
            JArr [JObj [(''identifier'', JStr ''text''), (''text'', JStr ''value1'')],
                  JObj [(''identifier'', JStr ''text''), (''text'', JStr ''value2'')]])]"

definition docstring_text :: string where
  \<open>docstring_text =
     ''{"key": [{"identifier": "text", "text": "value1"}, {"identifier": "text", "text": "value2"}]}''\<close>

text \<open>\<^verbatim>\<open>{"list": [10, 20]}\<close>\<close>

definition list_example :: "'f json" where
  "list_example = JObj [(''list'', JArr [JInt 10, JInt 20])]"

text \<open>\<^verbatim>\<open>[{"identifier": "n", "n": 5}]\<close>: the identifier names a field holding a number.\<close>

definition numeric_identifier_example :: "'f json" where
  "numeric_identifier_example = JArr [JObj [(''identifier'', JStr ''n''), (''n'', JInt 5)]]"

text \<open>
  \<^verbatim>\<open>[{"identifier": "t", "t": "x", "v": 1}, {"identifier": "t", "t": "x", "v": 2}]\<close>:
  two elements with the same identifier value.
\<close>

definition same_identifier_example :: "'f json" where
  "same_identifier_example =
     JArr [JObj [(''identifier'', JStr ''t''), (''t'', JStr ''x''), (''v'', JInt 1)],
           JObj [(''identifier'', JStr ''t''), (''t'', JStr ''x''), (''v'', JInt 2)]]"

text \<open>\<^verbatim>\<open>{"a": {"x": 1}, "a_x": 2}\<close>: two locations with the key path \<^verbatim>\<open>a_x\<close>.\<close>

definition collision_example :: "'f json" where
  "collision_example = JObj [(''a'', JObj [(''x'', JInt 1)]), (''a_x'', JInt 2)]"

text \<open>
  \<^verbatim>\<open>{"a": {"x": 1}, "a_x": 2, "z": [{"identifier": "n", "n": 5}]}\<close>: the same two
  locations, followed by an array element whose identifier names a number.
\<close>

definition raising_collision_example :: "'f json" where
  "raising_collision_example =
     JObj [(''a'', JObj [(''x'', JInt 1)]), (''a_x'', JInt 2),
           (''z'', JArr [JObj [(''identifier'', JStr ''n''), (''n'', JInt 5)]])]"

section \<open>Lemmas on dicts\<close>

lemma dict_set_keys: "fst ` set (dict_set k v out) = insert k (fst ` set out)"
proof (induction out)
  case Nil
  show ?case by simp
next
  case (Cons e out)
  then show ?case by (cases e) (simp add: insert_commute)
qed

lemma dict_set_distinct:
  "distinct (map fst out) \<Longrightarrow> distinct (map fst (dict_set k v out))"
proof (induction out)
  case Nil
  show ?case by simp
next
  case (Cons e out)
  have "fst ` set (dict_set k v out) = insert k (fst ` set out)"
    by (rule dict_set_keys)
  with Cons show ?case by (cases e) auto
qed

lemma map_of_dict_set: "map_of (dict_set k v out) = (map_of out)(k \<mapsto> v)"
  by (induction out) (auto simp: fun_eq_iff)

lemma dict_set_new: "k \<notin> fst ` set out \<Longrightarrow> dict_set k v out = out @ [(k, v)]"
  by (induction out) auto

section \<open>The flattener as a sequence of assignments\<close>

lemma record_writes_simps [simp]:
  "record_writes out [] = out"
  "record_writes out (w # ws) = record_writes (dict_set (butlast (fst w)) (snd w) out) ws"
  "record_writes out (ws @ ws') = record_writes (record_writes out ws) ws'"
  by (simp_all add: record_writes_def split_beta)

lemma flatten_json_record_writes:
  "flatten_json j key_name out =
     (case leaf_writes j key_name of Inl e \<Rightarrow> Inl e | Inr ws \<Rightarrow> Inr (record_writes out ws))"
  "flatten_dict_loop kvs key_name out =
     (case dict_writes kvs key_name of Inl e \<Rightarrow> Inl e | Inr ws \<Rightarrow> Inr (record_writes out ws))"
  "flatten_list_loop xs i key_name out =
     (case list_writes xs i key_name of Inl e \<Rightarrow> Inl e | Inr ws \<Rightarrow> Inr (record_writes out ws))"
proof (induction j key_name out and kvs key_name out and xs i key_name out
       rule: flatten_json_flatten_dict_loop_flatten_list_loop.induct)
  case (5 a v rest key_name out)
  then show ?case by (auto split: sum.splits)
next
  case (7 a rest i key_name out)
  then show ?case by (auto split: sum.splits)
qed simp_all

lemma leaf_writes_values:
  "leaf_writes j key_name = Inr ws \<Longrightarrow> map snd ws = emitted_leaves j"
  "dict_writes kvs key_name = Inr ws \<Longrightarrow> map snd ws = emitted_leaves_dict kvs"
  "list_writes xs i key_name = Inr ws \<Longrightarrow> map snd ws = emitted_leaves_list xs"
proof (induction j key_name and kvs key_name and xs i key_name arbitrary: ws and ws and ws
       rule: leaf_writes_dict_writes_list_writes.induct)
  case (5 a v rest key_name)
  then show ?case by (auto split: sum.splits if_splits)
next
  case (7 a rest i key_name)
  then show ?case by (auto split: sum.splits)
qed auto

lemma leaf_writes_paths:
  "leaf_writes j key_name = Inr ws \<Longrightarrow> (p, x) \<in> set ws \<Longrightarrow>
     (p = key_name \<and> is_scalar j) \<or> (\<exists>s. p = key_name @ s @ ''_'')"
  "dict_writes kvs key_name = Inr ws \<Longrightarrow> (p, x) \<in> set ws \<Longrightarrow> \<exists>s. p = key_name @ s @ ''_''"
  "list_writes xs i key_name = Inr ws \<Longrightarrow> (p, x) \<in> set ws \<Longrightarrow> \<exists>s. p = key_name @ s @ ''_''"
proof (induction j key_name and kvs key_name and xs i key_name arbitrary: ws and ws and ws
       rule: leaf_writes_dict_writes_list_writes.induct)
  case (5 a v rest key_name)
  show ?case
  proof (cases "a = ''identifier''")
    case True
    with 5 show ?thesis by simp
  next
    case False
    from 5(4) False obtain ws1 ws2 where
      w: "leaf_writes v (key_name @ a @ ''_'') = Inr ws1" "dict_writes rest key_name = Inr ws2"
         "ws = ws1 @ ws2"
      by (auto split: sum.splits)
    from 5(5) w(3) consider "(p, x) \<in> set ws1" | "(p, x) \<in> set ws2" by auto
    then show ?thesis
    proof cases
      case 1
      from 5(2) [OF False w(1) 1] show ?thesis
      proof
        assume "p = key_name @ a @ ''_'' \<and> is_scalar v"
        then show ?thesis by blast
      next
        assume "\<exists>s. p = (key_name @ a @ ''_'') @ s @ ''_''"
        then obtain s where "p = key_name @ (a @ ''_'' @ s) @ ''_''" by auto
        then show ?thesis by blast
      qed
    next
      case 2
      from 5(3) [OF False w(1) w(2) 2] show ?thesis .
    qed
  qed
next
  case (7 a rest i key_name)
  from 7(3) obtain q ws1 ws2 where
    w: "str_add key_name (identifier_of a i) = Inr q" "leaf_writes a (q @ ''_'') = Inr ws1"
       "list_writes rest (i + 1) key_name = Inr ws2" "ws = ws1 @ ws2"
    by (auto split: sum.splits)
  from w(1) obtain t where q: "q = key_name @ t"
    by (cases "identifier_of a i") auto
  from 7(4) w(4) consider "(p, x) \<in> set ws1" | "(p, x) \<in> set ws2" by auto
  then show ?case
  proof cases
    case 1
    from 7(1) [OF w(1) w(2) 1] show ?thesis
    proof
      assume "p = q @ ''_'' \<and> is_scalar a"
      with q have "p = key_name @ t @ ''_''" by simp
      then show ?thesis by blast
    next
      assume "\<exists>s. p = (q @ ''_'') @ s @ ''_''"
      then obtain s where "p = key_name @ (t @ ''_'' @ s) @ ''_''" using q by auto
      then show ?thesis by blast
    qed
  next
    case 2
    from 7(2) [OF w(1) w(2) w(3) 2] show ?thesis .
  qed
qed auto

lemma digit_not_sep: "m < 10 \<Longrightarrow> ''0123456789'' ! m \<noteq> CHR ''_''"
proof -
  assume "m < 10"
  then have "''0123456789'' ! m \<in> set ''0123456789''"
    by (intro nth_mem) simp
  then show ?thesis by auto
qed

lemma str_nat_not_sep: "\<not> ends_with_sep (key_name @ str_nat n)"
proof -
  have "str_nat n \<noteq> [] \<and> last (str_nat n) = ''0123456789'' ! (n mod 10)"
    by (subst (1 2) str_nat.simps) simp
  then show ?thesis
    using digit_not_sep [of "n mod 10"] by (simp add: ends_with_sep_def)
qed

lemma leaf_writes_scalar: "is_scalar v \<Longrightarrow> leaf_writes v key_name = Inr [(key_name, v)]"
  by (cases v) simp_all

lemma sep_free_keys_scalar: "is_scalar v \<Longrightarrow> sep_free_keys root v"
  by (cases v) simp_all

lemma lookup_identifier_scalar: "is_scalar v \<Longrightarrow> lookup_identifier v = None"
  by (cases v) simp_all

lemma ends_with_sep_key:
  "key_name = [] \<or> last key_name = CHR ''_'' \<Longrightarrow>
   ends_with_sep (key_name @ a) = (if a = [] then key_name \<noteq> [] else last a = CHR ''_'')"
  by (auto simp: ends_with_sep_def)

lemma writes_sep_free:
  "key_name = [] \<or> last key_name = CHR ''_'' \<Longrightarrow> leaf_writes j key_name = Inr ws \<Longrightarrow>
     \<not> is_scalar j \<Longrightarrow>
     (\<forall>w \<in> set ws. \<not> ends_with_sep (butlast (fst w))) = sep_free_keys (key_name = []) j"
  "key_name = [] \<or> last key_name = CHR ''_'' \<Longrightarrow> dict_writes kvs key_name = Inr ws \<Longrightarrow>
     (\<forall>w \<in> set ws. \<not> ends_with_sep (butlast (fst w))) = sep_free_dict (key_name = []) kvs"
  "key_name = [] \<or> last key_name = CHR ''_'' \<Longrightarrow> list_writes xs i key_name = Inr ws \<Longrightarrow>
     (\<forall>w \<in> set ws. \<not> ends_with_sep (butlast (fst w))) = sep_free_list xs"
proof (induction j key_name and kvs key_name and xs i key_name arbitrary: ws and ws and ws
       rule: leaf_writes_dict_writes_list_writes.induct)
  case (5 a v rest key_name)
  show ?case
  proof (cases "a = ''identifier''")
    case True
    with 5 show ?thesis by simp
  next
    case False
    from 5(5) False obtain ws1 ws2 where
      w: "leaf_writes v (key_name @ a @ ''_'') = Inr ws1" "dict_writes rest key_name = Inr ws2"
         "ws = ws1 @ ws2"
      by (auto split: sum.splits)
    have rest: "(\<forall>w \<in> set ws2. \<not> ends_with_sep (butlast (fst w))) =
                  sep_free_dict (key_name = []) rest"
      by (rule 5(3) [OF False w(1) 5(4) w(2)])
    have entry: "(\<forall>w \<in> set ws1. \<not> ends_with_sep (butlast (fst w))) =
                   ((is_scalar v \<longrightarrow> (if a = [] then key_name = [] else last a \<noteq> CHR ''_''))
                    \<and> sep_free_keys False v)"
    proof (cases "is_scalar v")
      case True
      with w(1) have "ws1 = [(key_name @ a @ ''_'', v)]"
        by (simp add: leaf_writes_scalar)
      moreover have "butlast (key_name @ a @ ''_'') = key_name @ a"
        by (simp add: butlast_append)
      ultimately show ?thesis
        using True ends_with_sep_key [OF 5(4), of a] by (simp add: sep_free_keys_scalar)
    next
      case scalar: False
      have "(\<forall>w \<in> set ws1. \<not> ends_with_sep (butlast (fst w))) =
              sep_free_keys (key_name @ a @ ''_'' = []) v"
        by (rule 5(2) [OF False _ w(1) scalar]) simp
      with scalar show ?thesis by simp
    qed
    from rest entry w(3) False show ?thesis
      by (simp add: ball_Un)
  qed
next
  case (7 a rest i key_name)
  from 7(4) obtain q ws1 ws2 where
    w: "str_add key_name (identifier_of a i) = Inr q" "leaf_writes a (q @ ''_'') = Inr ws1"
       "list_writes rest (i + 1) key_name = Inr ws2" "ws = ws1 @ ws2"
    by (auto split: sum.splits)
  have rest: "(\<forall>w \<in> set ws2. \<not> ends_with_sep (butlast (fst w))) = sep_free_list rest"
    by (rule 7(2) [OF w(1) w(2) 7(3) w(3)])
  have elem: "(\<forall>w \<in> set ws1. \<not> ends_with_sep (butlast (fst w))) = sep_free_keys False a"
  proof (cases "is_scalar a")
    case True
    then have "identifier_of a i = JStr (str_nat i)"
      by (simp add: identifier_of_def lookup_identifier_scalar)
    with w(1) have q: "q = key_name @ str_nat i" by simp
    from True w(2) have "ws1 = [(q @ ''_'', a)]"
      by (simp add: leaf_writes_scalar)
    moreover have "butlast (q @ ''_'') = q"
      by (simp add: butlast_append)
    ultimately show ?thesis
      using True q str_nat_not_sep [of key_name i] by (simp add: sep_free_keys_scalar)
  next
    case scalar: False
    have "(\<forall>w \<in> set ws1. \<not> ends_with_sep (butlast (fst w))) =
            sep_free_keys (q @ ''_'' = []) a"
      by (rule 7(1) [OF w(1) _ w(2) scalar]) simp
    then show ?thesis by simp
  qed
  from rest elem w(4) show ?case
    by (simp add: ball_Un)
qed auto

lemma record_writes_keys:
  "fst ` set (record_writes out ws) = fst ` set out \<union> (\<lambda>w. butlast (fst w)) ` set ws"
proof (induction ws arbitrary: out)
  case Nil
  show ?case by simp
next
  case (Cons w ws)
  show ?case
    using Cons [of "dict_set (butlast (fst w)) (snd w) out"]
    by (simp add: dict_set_keys)
qed

lemma record_writes_distinct:
  "distinct (map fst out) \<Longrightarrow> distinct (map fst (record_writes out ws))"
proof (induction ws arbitrary: out)
  case Nil
  then show ?case by simp
next
  case (Cons w ws)
  from Cons.prems have "distinct (map fst (dict_set (butlast (fst w)) (snd w) out))"
    by (rule dict_set_distinct)
  then show ?case by (simp add: Cons.IH)
qed

lemma record_writes_other:
  "\<forall>w \<in> set ws. butlast (fst w) \<noteq> k \<Longrightarrow> map_of (record_writes out ws) k = map_of out k"
proof (induction ws arbitrary: out)
  case Nil
  show ?case by simp
next
  case (Cons w ws)
  from Cons.prems have "butlast (fst w) \<noteq> k" and rest: "\<forall>w \<in> set ws. butlast (fst w) \<noteq> k"
    by simp_all
  then show ?case
    by (simp add: Cons.IH [OF rest] map_of_dict_set)
qed

lemma record_writes_fresh:
  "distinct (map (\<lambda>w. butlast (fst w)) ws) \<Longrightarrow>
   \<forall>w \<in> set ws. butlast (fst w) \<notin> fst ` set out \<Longrightarrow>
   record_writes out ws = out @ map (\<lambda>w. (butlast (fst w), snd w)) ws"
proof (induction ws arbitrary: out)
  case Nil
  show ?case by simp
next
  case (Cons w ws)
  from Cons.prems(2) have new: "butlast (fst w) \<notin> fst ` set out" by simp
  have d: "distinct (map (\<lambda>w. butlast (fst w)) ws)"
    using Cons.prems(1) by simp
  have a: "\<forall>w' \<in> set ws. butlast (fst w') \<noteq> butlast (fst w)"
    using Cons.prems(1) by (auto simp: image_iff)
  have b: "\<forall>w' \<in> set ws. butlast (fst w') \<notin> fst ` set out"
    using Cons.prems(2) by simp
  have f: "\<forall>w' \<in> set ws. butlast (fst w') \<notin> fst ` set (out @ [(butlast (fst w), snd w)])"
  proof
    fix w' assume w': "w' \<in> set ws"
    with a have "butlast (fst w') \<noteq> butlast (fst w)" by simp
    moreover from b w' have "butlast (fst w') \<notin> fst ` set out" by blast
    ultimately show "butlast (fst w') \<notin> fst ` set (out @ [(butlast (fst w), snd w)])"
      by simp
  qed
  show ?case
    by (simp add: dict_set_new [OF new] Cons.IH [OF d f])
qed

lemma unique_entry:
  "distinct (map fst xs) \<Longrightarrow> map_of xs k = Some v \<Longrightarrow> filter (\<lambda>e. fst e = k) xs = [(k, v)]"
proof (induction xs)
  case Nil
  then show ?case by simp
next
  case (Cons e xs)
  show ?case
  proof (cases "fst e = k")
    case True
    with Cons.prems have "e = (k, v)" by (cases e) simp
    moreover have "fst e \<notin> fst ` set xs"
      using Cons.prems(1) by simp
    then have "\<forall>x \<in> set xs. fst x \<noteq> k"
      using True by blast
    then have "filter (\<lambda>e. fst e = k) xs = []"
      by (simp add: filter_empty_conv)
    ultimately show ?thesis by simp
  next
    case False
    with Cons show ?thesis by (cases e) auto
  qed
qed

lemma load_loop_length: "length (load_loop env self i data) = length data"
  by (induction data arbitrary: i) simp_all

lemma load_loop_nth:
  "n < length data \<Longrightarrow> load_loop env self i data ! n = make_document env self (i + n) (data ! n)"
proof (induction data arbitrary: i n)
  case Nil
  then show ?case by simp
next
  case (Cons sample rest)
  show ?case
  proof (cases n)
    case 0
    then show ?thesis by simp
  next
    case (Suc m)
    with Cons.prems have "m < length rest" by simp
    from Cons.IH [OF this, of "i + 1"] Suc show ?thesis by simp
  qed
qed

lemma page_content_make_document:
  "page_content (make_document env self i (k, v)) = dumps (float_repr env) (JObj [(k, v)])"
  by (simp add: make_document_def dict_or_empty_def)

lemma metadata_make_document:
  "metadata (make_document env self i sample) =
     [(''source'', JStr (file_path self)), (''seq_num'', JInt (int i))]"
  by (simp add: make_document_def Let_def)

section \<open>Lemmas on \<^verbatim>\<open>load\<close>\<close>

lemma flatten_list_loop_append:
  "flatten_list_loop (pre @ ys) i key_name out =
     (case flatten_list_loop pre i key_name out of
        Inl e \<Rightarrow> Inl e
      | Inr out' \<Rightarrow> flatten_list_loop ys (i + length pre) key_name out')"
  by (induction pre arbitrary: i out) (auto split: sum.splits)

lemma dict_or_empty_single: "dict_or_empty [sample] = TDict [sample]"
  by (simp add: dict_or_empty_def)

lemma load_loop_metadata_func:
  "load_loop env (self\<lparr>metadata_func := f\<rparr>) i data = load_loop env self i data"
  by (induction data arbitrary: i) (simp_all add: make_document_def)

lemma load_metadata_func: "load env (self\<lparr>metadata_func := f\<rparr>) = load env self"
  by (simp add: load_def load_loop_metadata_func split: option.splits sum.splits)

lemma flatten_json_error:
  "flatten_json j key_name out = Inl e \<Longrightarrow> e = TypeError"
  "flatten_dict_loop kvs key_name out = Inl e \<Longrightarrow> e = TypeError"
  "flatten_list_loop xs i key_name out = Inl e \<Longrightarrow> e = TypeError"
proof (induction j key_name out and kvs key_name out and xs i key_name out
       rule: flatten_json_flatten_dict_loop_flatten_list_loop.induct)
  case (5 a v rest key_name out)
  then show ?case by (auto split: sum.splits if_splits)
next
  case (7 a rest i key_name out)
  have "str_add key_name x = Inl e' \<Longrightarrow> e' = TypeError" for x :: "'a json" and e'
    by (cases x) simp_all
  with 7 show ?case by (auto split: sum.splits)
qed simp_all

lemma load_outcomes:
  "load env self = Inl FileAccessError \<and> read_text env (file_path self) = None
   \<or> (\<exists>t. read_text env (file_path self) = Some t \<and>
         (load env self = Inl ParseError \<and> json_loads env t = None
          \<or> (\<exists>j. json_loads env t = Some j \<and>
                (load env self = Inl TypeError \<and> flatten_json j [] [] = Inl TypeError
                 \<or> (\<exists>data. flatten_json j [] [] = Inr data \<and>
                       load env self = Inr (load_loop env self 1 data))))))"
proof (cases "read_text env (file_path self)")
  case None
  then show ?thesis by (simp add: load_def)
next
  case (Some t)
  show ?thesis
  proof (cases "json_loads env t")
    case None
    with Some show ?thesis by (simp add: load_def flatten_nested_json_def)
  next
    case j: (Some j)
    show ?thesis
    proof (cases "flatten_json j [] []")
      case (Inl e)
      then have "e = TypeError" by (rule flatten_json_error(1))
      with Some j Inl show ?thesis by (simp add: load_def flatten_nested_json_def)
    next
      case (Inr data)
      with Some j show ?thesis by (simp add: load_def flatten_nested_json_def)
    qed
  qed
qed

text \<open>
  Last write wins, on every tree on which flattening does not raise: when two visited
  leaves (positions \<open>m < n\<close> of the traversal) produce the same key \<open>k\<close> and \<open>n\<close> is
  the last leaf visited with that key, the final mapping has exactly one entry under
  \<open>k\<close>, holding the value of the later leaf.
\<close>

lemma last_write_wins:
  assumes "leaf_writes j [] = Inr ws"
    and "m < n" and "n < length ws"
    and "butlast (fst (ws ! m)) = k" and "butlast (fst (ws ! n)) = k"
    and "\<forall>l. n < l \<and> l < length ws \<longrightarrow> butlast (fst (ws ! l)) \<noteq> k"
  shows "\<exists>out. flatten_json j [] [] = Inr out
           \<and> filter (\<lambda>e. fst e = k) out = [(k, snd (ws ! n))]
           \<and> (snd (ws ! m) \<noteq> snd (ws ! n) \<longrightarrow> (k, snd (ws ! m)) \<notin> set out)"
proof -
  let ?out = "record_writes [] ws"
  let ?before = "record_writes [] (take n ws)"
  have run: "flatten_json j [] [] = Inr ?out"
    using assms(1) by (simp add: flatten_json_record_writes(1))
  have "record_writes [] ws = record_writes [] (take n ws @ ws ! n # drop (Suc n) ws)"
    using id_take_nth_drop [OF assms(3)] by simp
  then have split: "?out = record_writes (dict_set k (snd (ws ! n)) ?before) (drop (Suc n) ws)"
    by (simp add: assms(5))
  have later: "\<forall>w \<in> set (drop (Suc n) ws). butlast (fst w) \<noteq> k"
  proof
    fix w assume "w \<in> set (drop (Suc n) ws)"
    then obtain l where "l < length ws - Suc n" "w = ws ! (Suc n + l)"
      by (auto simp: in_set_conv_nth)
    with assms(6) show "butlast (fst w) \<noteq> k" by simp
  qed
  from split have "map_of ?out k = map_of (dict_set k (snd (ws ! n)) ?before) k"
    using record_writes_other [OF later] by simp
  then have look: "map_of ?out k = Some (snd (ws ! n))"
    by (simp add: map_of_dict_set)
  have "distinct (map fst ?out)"
    by (rule record_writes_distinct) simp
  from unique_entry [OF this look]
  have one: "filter (\<lambda>e. fst e = k) ?out = [(k, snd (ws ! n))]" .
  have "(k, snd (ws ! m)) \<notin> set ?out" if "snd (ws ! m) \<noteq> snd (ws ! n)"
  proof
    assume "(k, snd (ws ! m)) \<in> set ?out"
    then have "(k, snd (ws ! m)) \<in> set (filter (\<lambda>e. fst e = k) ?out)" by simp
    with one that show False by simp
  qed
  with run one show ?thesis by blast
qed

lemma last_write_wins_collision_example:
  "leaf_writes (collision_example :: unit json) [] = Inr [(''a_x_'', JInt 1), (''a_x_'', JInt 2)]
   \<and> flatten_json (collision_example :: unit json) [] [] = Inr [(''a_x'', JInt 2)]
   \<and> (''a_x'', JInt 1) \<notin> set [(''a_x'', JInt 2 :: unit json)]"
proof -
  let ?ws = "[(''a_x_'', JInt 1), (''a_x_'', JInt 2)] :: (string \<times> unit json) list"
  have ws: "leaf_writes (collision_example :: unit json) [] = Inr ?ws"
    by (simp add: collision_example_def)
  have last: "\<forall>l. 1 < l \<and> l < length ?ws \<longrightarrow> butlast (fst (?ws ! l)) \<noteq> ''a_x''"
    by auto
  from last_write_wins [OF ws, of 0 1 "''a_x''"] last
  obtain out where "flatten_json (collision_example :: unit json) [] [] = Inr out"
    and "filter (\<lambda>e. fst e = ''a_x'') out = [(''a_x'', JInt 2)]"
    by auto
  moreover have "flatten_json (collision_example :: unit json) [] [] = Inr [(''a_x'', JInt 2)]"
    by (simp add: collision_example_def)
  ultimately show ?thesis using ws by auto
qed

section \<open>The claims\<close>

text \<open>
  C1. The claim: \<^verbatim>\<open>load\<close> invokes a supplied metadata callback once per record, in
  emission order, with the flattened entry and the default metadata, and the callback's
  return value is the record's metadata. The loop of \<^verbatim>\<open>load\<close> never reads
  \<^verbatim>\<open>self._metadata_func\<close> (lemma \<open>load_metadata_func\<close>): on the docstring example,
  with a callback that returns \<^verbatim>\<open>{"source": "custom"}\<close>, both records carry the default
  metadata.
\<close>

theorem C1_metadata_func_not_applied:
  \<open>load (file_env ''/data.json'' docstring_text (docstring_example :: unit json))
      \<lparr>file_path = ''/data.json'',
       metadata_func = Some (\<lambda>entry default. [(''source'', JStr ''custom'')])\<rparr> =
    Inr [\<lparr>page_content = ''{"key_value1_text": "value1"}'',
          metadata = [(''source'', JStr ''/data.json''), (''seq_num'', JInt 1)]\<rparr>,
         \<lparr>page_content = ''{"key_value2_text": "value2"}'',
          metadata = [(''source'', JStr ''/data.json''), (''seq_num'', JInt 2)]\<rparr>]\<close>
  by (simp add: load_def flatten_nested_json_def file_env_def docstring_example_def
      identifier_of_def make_document_def dict_or_empty_def encode_str_def escape_char_def)

text \<open>
  C2. The claim: an entry of the flattened mapping whose value is null gives a record
  whose payload is the empty string. \<^verbatim>\<open>dict([text]) or ""\<close> is the one-entry dict, which
  is never empty (lemma \<open>dict_or_empty_single\<close>), so the payload is its serialisation:
  for the file \<^verbatim>\<open>{"a": null}\<close> it is \<^verbatim>\<open>{"a": null}\<close>.
\<close>

theorem C2_null_payload_is_serialised:
  \<open>load (file_env ''/data.json'' ''{"a": null}'' (JObj [(''a'', JNull)] :: unit json))
      \<lparr>file_path = ''/data.json'', metadata_func = None\<rparr> =
    Inr [\<lparr>page_content = ''{"a": null}'',
          metadata = [(''source'', JStr ''/data.json''), (''seq_num'', JInt 1)]\<rparr>]\<close>
  by (simp add: load_def flatten_nested_json_def file_env_def make_document_def
      dict_or_empty_def encode_str_def escape_char_def)

text \<open>
  C3. The claim: the flattener never raises, and an identifier value of any shape
  degrades to the index segment. For \<^verbatim>\<open>[{"identifier": "n", "n": 5}]\<close> the lookup
  \<^verbatim>\<open>a[a['identifier']]\<close> succeeds with the number 5, no fallback happens, and
  \<^verbatim>\<open>key_name + identifier\<close> raises \<^verbatim>\<open>TypeError\<close>.
\<close>

theorem C3_numeric_identifier_raises:
  "lookup_identifier (JObj [(''identifier'', JStr ''n''), (''n'', JInt 5)] :: unit json) =
     Some (JInt 5)
   \<and> flatten_json (numeric_identifier_example :: unit json) [] [] = Inl TypeError"
  by (simp add: numeric_identifier_example_def identifier_of_def)

text \<open>
  C4, as amended. When flattening succeeds, every key of the flattened mapping is the
  accumulated key path of a visited leaf without its last character. Unless the leaf is
  a scalar root (whose path is empty, and nothing is removed), that path is the key
  followed by the separator, so exactly one separator is removed. No key of the mapping
  ends with the separator exactly when every visited object entry that holds a scalar
  has a key that does not end with an underscore and that is empty only in the root
  object (\<open>sep_free_keys\<close>).
\<close>

theorem C4_key_is_path_without_last_char:
  assumes "flatten_json j [] [] = Inr out"
  shows "(\<forall>k \<in> fst ` set out.
            \<exists>ws p v. leaf_writes j [] = Inr ws \<and> (p, v) \<in> set ws \<and> k = butlast p
              \<and> ((p = [] \<and> is_scalar j) \<or> p = k @ ''_''))
         \<and> ((\<forall>k \<in> fst ` set out. \<not> ends_with_sep k) = sep_free_keys True j)"
proof -
  from assms obtain ws where ws: "leaf_writes j [] = Inr ws" "out = record_writes [] ws"
    by (auto simp: flatten_json_record_writes(1) split: sum.splits)
  have keys: "fst ` set out = (\<lambda>w. butlast (fst w)) ` set ws"
    using ws(2) by (simp add: record_writes_keys)
  have path: "\<exists>ws p v. leaf_writes j [] = Inr ws \<and> (p, v) \<in> set ws \<and> k = butlast p
                \<and> ((p = [] \<and> is_scalar j) \<or> p = k @ ''_'')"
    if "k \<in> fst ` set out" for k
  proof -
    from that keys obtain p v where pv: "(p, v) \<in> set ws" "k = butlast p" by auto
    from leaf_writes_paths(1) [OF ws(1) pv(1)]
    have "(p = [] \<and> is_scalar j) \<or> (\<exists>s. p = s @ ''_'')" by simp
    then have "(p = [] \<and> is_scalar j) \<or> p = k @ ''_''"
      using pv(2) by auto
    with ws(1) pv show ?thesis by blast
  qed
  have sep: "(\<forall>k \<in> fst ` set out. \<not> ends_with_sep k) = sep_free_keys True j"
  proof (cases "is_scalar j")
    case True
    with ws(1) have "ws = [([], j)]" by (simp add: leaf_writes_scalar)
    with keys True show ?thesis
      by (simp add: ends_with_sep_def sep_free_keys_scalar)
  next
    case False
    have "(\<forall>w \<in> set ws. \<not> ends_with_sep (butlast (fst w))) = sep_free_keys ([] = ([] :: string)) j"
      by (rule writes_sep_free(1) [OF _ ws(1) False]) simp
    with keys show ?thesis by simp
  qed
  from path sep show ?thesis by blast
qed

theorem C4_witness:
  "flatten_json (list_example :: unit json) [] [] =
     Inr [(''list_0'', JInt 10), (''list_1'', JInt 20)]
   \<and> (\<exists>ws p v. leaf_writes (list_example :: unit json) [] = Inr ws \<and> (p, v) \<in> set ws
          \<and> ''list_0'' = butlast p
          \<and> ((p = [] \<and> is_scalar (list_example :: unit json)) \<or> p = ''list_0'' @ ''_''))
   \<and> sep_free_keys True (list_example :: unit json)
   \<and> \<not> ends_with_sep ''list_0''
   \<and> \<not> ends_with_sep ''list_1''"
proof -
  let ?out = "[(''list_0'', JInt 10), (''list_1'', JInt 20)] :: (string \<times> unit json) list"
  have run: "flatten_json (list_example :: unit json) [] [] = Inr ?out"
    by (simp add: list_example_def identifier_of_def str_nat.simps)
  have free: "sep_free_keys True (list_example :: unit json)"
    by (simp add: list_example_def)
  have key0: "''list_0'' \<in> fst ` set ?out" and key1: "''list_1'' \<in> fst ` set ?out"
    by simp_all
  from C4_key_is_path_without_last_char [OF run]
  have path: "\<forall>k \<in> fst ` set ?out.
                \<exists>ws p v. leaf_writes (list_example :: unit json) [] = Inr ws \<and> (p, v) \<in> set ws
                  \<and> k = butlast p
                  \<and> ((p = [] \<and> is_scalar (list_example :: unit json)) \<or> p = k @ ''_'')"
    and sep: "(\<forall>k \<in> fst ` set ?out. \<not> ends_with_sep k) =
                sep_free_keys True (list_example :: unit json)"
    by blast+
  from sep free have no_sep: "\<forall>k \<in> fst ` set ?out. \<not> ends_with_sep k"
    by blast
  from bspec [OF path key0] bspec [OF no_sep key0] bspec [OF no_sep key1] run free
  show ?thesis by blast
qed

text \<open>
  C4, as stated, fails: for \<^verbatim>\<open>{"a_": 1}\<close> the recorded key is \<^verbatim>\<open>a_\<close>, which ends
  with the separator.
\<close>

theorem C4_counterexample:
  "flatten_json (JObj [(''a_'', JInt 1)] :: unit json) [] [] = Inr [(''a_'', JInt 1)]
   \<and> last ''a_'' = CHR ''_''"
  by simp

text \<open>
  C5. Flattening the docstring example yields exactly the keys \<^verbatim>\<open>key_value1_text\<close> and
  \<^verbatim>\<open>key_value2_text\<close>, bound to \<^verbatim>\<open>value1\<close> and \<^verbatim>\<open>value2\<close>, and \<^verbatim>\<open>load\<close> on a file
  holding it yields exactly two records, with sequence numbers 1 and 2 in that order.
\<close>

theorem C5_docstring_example:
  fixes env :: "'f env"
  assumes "read_text env (file_path self) = Some json_text"
    and "json_loads env json_text = Some docstring_example"
  shows "flatten_json (docstring_example :: 'f json) [] [] =
           Inr [(''key_value1_text'', JStr ''value1''), (''key_value2_text'', JStr ''value2'')]
         \<and> load env self =
             Inr [\<lparr>page_content =
                     dumps (float_repr env) (JObj [(''key_value1_text'', JStr ''value1'')]),
                   metadata = [(''source'', JStr (file_path self)), (''seq_num'', JInt 1)]\<rparr>,
                  \<lparr>page_content =
                     dumps (float_repr env) (JObj [(''key_value2_text'', JStr ''value2'')]),
                   metadata = [(''source'', JStr (file_path self)), (''seq_num'', JInt 2)]\<rparr>]"
proof -
  have f: "flatten_json (docstring_example :: 'f json) [] [] =
           Inr [(''key_value1_text'', JStr ''value1''), (''key_value2_text'', JStr ''value2'')]"
    by (simp add: docstring_example_def identifier_of_def)
  have "load env self =
          Inr (load_loop env self 1
                 [(''key_value1_text'', JStr ''value1''), (''key_value2_text'', JStr ''value2'')])"
    using assms f by (simp add: load_def flatten_nested_json_def)
  then show ?thesis
    using f by (simp add: make_document_def dict_or_empty_def)
qed

theorem C5_witness:
  \<open>flatten_json (docstring_example :: unit json) [] [] =
      Inr [(''key_value1_text'', JStr ''value1''), (''key_value2_text'', JStr ''value2'')]
   \<and> load (file_env ''/data.json'' docstring_text (docstring_example :: unit json))
          \<lparr>file_path = ''/data.json'', metadata_func = None\<rparr> =
        Inr [\<lparr>page_content = ''{"key_value1_text": "value1"}'',
              metadata = [(''source'', JStr ''/data.json''), (''seq_num'', JInt 1)]\<rparr>,
             \<lparr>page_content = ''{"key_value2_text": "value2"}'',
              metadata = [(''source'', JStr ''/data.json''), (''seq_num'', JInt 2)]\<rparr>]\<close>
  using C5_docstring_example
    [of "file_env ''/data.json'' docstring_text (docstring_example :: unit json)"
        "\<lparr>file_path = ''/data.json'', metadata_func = None\<rparr>" docstring_text]
  by (simp add: file_env_def encode_str_def escape_char_def)

text \<open>
  C6. An array element that is not a mapping, or is a mapping without the key
  \<^verbatim>\<open>"identifier"\<close>, or whose \<^verbatim>\<open>"identifier"\<close> value is not one of its keys, gets its
  zero-based index (the number of elements before it), as a decimal string, for key
  segment: the traversal recurses into it with that segment and the separator appended
  to the key path. In particular \<^verbatim>\<open>{"list": [10, 20]}\<close> flattens to exactly
  \<^verbatim>\<open>list_0\<close> and \<^verbatim>\<open>list_1\<close> with values 10 and 20.
\<close>

theorem C6_index_segment:
  fixes a :: "'f json"
  assumes "(\<forall>kvs. a \<noteq> JObj kvs)
           \<or> (\<exists>kvs. a = JObj kvs \<and> map_of kvs ''identifier'' = None)
           \<or> (\<exists>kvs x. a = JObj kvs \<and> map_of kvs ''identifier'' = Some x
                 \<and> (\<forall>s. x = JStr s \<longrightarrow> map_of kvs s = None))"
  shows "identifier_of a (length pre) = JStr (str_nat (length pre))
         \<and> flatten_json (JArr (pre @ a # rest)) key_name out =
             (case flatten_list_loop pre 0 key_name out of
                Inl e \<Rightarrow> Inl e
              | Inr out1 \<Rightarrow>
                  (case flatten_json a (key_name @ str_nat (length pre) @ ''_'') out1 of
                     Inl e \<Rightarrow> Inl e
                   | Inr out2 \<Rightarrow> flatten_list_loop rest (length pre + 1) key_name out2))
         \<and> flatten_json (list_example :: 'f json) [] [] =
             Inr [(''list_0'', JInt 10), (''list_1'', JInt 20)]"
proof -
  have none: "lookup_identifier a = None"
  proof (cases a)
    case (JObj kvs)
    with assms consider "map_of kvs ''identifier'' = None"
      | x where "map_of kvs ''identifier'' = Some x" "\<forall>s. x = JStr s \<longrightarrow> map_of kvs s = None"
      by auto
    then show ?thesis
    proof cases
      case 1
      with JObj show ?thesis by simp
    next
      case 2
      with JObj show ?thesis by (cases x) simp_all
    qed
  qed simp_all
  then have seg: "identifier_of a (length pre) = JStr (str_nat (length pre))"
    by (simp add: identifier_of_def)
  have "flatten_json (list_example :: 'f json) [] [] =
          Inr [(''list_0'', JInt 10), (''list_1'', JInt 20)]"
    by (simp add: list_example_def identifier_of_def str_nat.simps)
  with seg show ?thesis
    by (simp add: flatten_list_loop_append split: sum.splits)
qed

theorem C6_witness:
  "(\<forall>kvs. (JInt 20 :: unit json) \<noteq> JObj kvs)
   \<and> identifier_of (JInt 20 :: unit json) (length [JInt 10 :: unit json]) = JStr ''1''
   \<and> flatten_json (JArr ([JInt 10] @ JInt 20 # []) :: unit json) ''list_'' [] =
       Inr [(''list_0'', JInt 10), (''list_1'', JInt 20)]"
  using C6_index_segment [of "JInt 20 :: unit json" "[JInt 10]" "[]" "''list_''" "[]"]
  by (simp add: str_nat.simps identifier_of_def)

text \<open>
  C7. The claim: for every input tree in which two distinct locations produce the same
  key path, the value of the later-visited location is the one present in the final
  mapping. In \<^verbatim>\<open>{"a": {"x": 1}, "a_x": 2, "z": [{"identifier": "n", "n": 5}]}\<close> the
  first two entries both write the key \<^verbatim>\<open>a_x\<close>, and the traversal then raises
  \<^verbatim>\<open>TypeError\<close> on the array element: there is no final mapping. (On the trees on
  which flattening does not raise, the claim holds: lemma \<open>last_write_wins\<close>.)
\<close>

theorem C7_collision_then_type_error:
  "dict_writes [(''a'', JObj [(''x'', JInt 1)]), (''a_x'', JInt 2 :: unit json)] [] =
     Inr [(''a_x_'', JInt 1), (''a_x_'', JInt 2)]
   \<and> flatten_json (raising_collision_example :: unit json) [] [] = Inl TypeError"
  by (simp add: raising_collision_example_def identifier_of_def)

text \<open>
  C8, as amended. For every JSON tree on which flattening succeeds and in which no two
  visited leaves produce the same key, \<^verbatim>\<open>load\<close> yields exactly one record per scalar
  leaf that does not lie under an \<^verbatim>\<open>"identifier"\<close> entry, in document order: the
  \<open>n\<close>-th record's payload is the serialisation of the single-entry mapping from the
  \<open>n\<close>-th key to the \<open>n\<close>-th such leaf, and its sequence number is \<open>n + 1\<close>.
\<close>

theorem C8_one_record_per_emitted_leaf:
  assumes "read_text env (file_path self) = Some json_text"
    and "json_loads env json_text = Some j"
    and "leaf_writes j [] = Inr ws"
    and "distinct (map (\<lambda>w. butlast (fst w)) ws)"
  shows "\<exists>docs. load env self = Inr docs
           \<and> length docs = length (emitted_leaves j)
           \<and> (\<forall>n < length docs.
                 page_content (docs ! n) =
                   dumps (float_repr env) (JObj [(butlast (fst (ws ! n)), emitted_leaves j ! n)])
                 \<and> map_of (metadata (docs ! n)) ''seq_num'' = Some (JInt (int n + 1)))"
proof -
  let ?data = "map (\<lambda>w. (butlast (fst w), snd w)) ws"
  let ?docs = "load_loop env self 1 ?data"
  have vals: "map snd ws = emitted_leaves j"
    using assms(3) by (rule leaf_writes_values(1))
  then have len: "length (emitted_leaves j) = length ws"
    by (metis length_map)
  have "record_writes [] ws = [] @ ?data"
    by (rule record_writes_fresh [OF assms(4)]) simp
  then have "flatten_json j [] [] = Inr ?data"
    using assms(3) by (simp add: flatten_json_record_writes(1))
  then have run: "load env self = Inr ?docs"
    using assms(1,2) by (simp add: load_def flatten_nested_json_def)
  have "page_content (?docs ! n) =
          dumps (float_repr env) (JObj [(butlast (fst (ws ! n)), emitted_leaves j ! n)])
        \<and> map_of (metadata (?docs ! n)) ''seq_num'' = Some (JInt (int n + 1))"
    if "n < length ?docs" for n
  proof -
    from that have n: "n < length ws" by (simp add: load_loop_length)
    then have "emitted_leaves j ! n = snd (ws ! n)"
      using vals by (metis nth_map)
    with n show ?thesis
      by (simp add: load_loop_nth page_content_make_document metadata_make_document)
  qed
  with run len show ?thesis
    by (auto simp: load_loop_length)
qed

theorem C8_witness:
  \<open>read_text (file_env ''/data.json'' docstring_text (docstring_example :: unit json))
      ''/data.json'' = Some docstring_text
   \<and> json_loads (file_env ''/data.json'' docstring_text (docstring_example :: unit json))
       docstring_text = Some docstring_example
   \<and> leaf_writes (docstring_example :: unit json) [] =
       Inr [(''key_value1_text_'', JStr ''value1''), (''key_value2_text_'', JStr ''value2'')]
   \<and> distinct [''key_value1_text'', ''key_value2_text'']
   \<and> emitted_leaves (docstring_example :: unit json) = [JStr ''value1'', JStr ''value2'']
   \<and> (\<exists>docs. load (file_env ''/data.json'' docstring_text (docstring_example :: unit json))
                 \<lparr>file_path = ''/data.json'', metadata_func = None\<rparr> = Inr docs
          \<and> length docs = 2
          \<and> page_content (docs ! 0) = ''{"key_value1_text": "value1"}''
          \<and> page_content (docs ! 1) = ''{"key_value2_text": "value2"}'')\<close>
proof -
  let ?env = "file_env ''/data.json'' docstring_text (docstring_example :: unit json)"
  let ?self = "\<lparr>file_path = ''/data.json'', metadata_func = None\<rparr> :: unit loader"
  let ?ws = "[(''key_value1_text_'', JStr ''value1''), (''key_value2_text_'', JStr ''value2'')]
               :: (string \<times> unit json) list"
  have r: "read_text ?env (file_path ?self) = Some docstring_text"
    by (simp add: file_env_def)
  have p: "json_loads ?env docstring_text = Some docstring_example"
    by (simp add: file_env_def)
  have ws: "leaf_writes (docstring_example :: unit json) [] = Inr ?ws"
    by (simp add: docstring_example_def identifier_of_def)
  have d: "distinct (map (\<lambda>w. butlast (fst w)) ?ws)"
    by simp
  have leaves: "emitted_leaves (docstring_example :: unit json) = [JStr ''value1'', JStr ''value2'']"
    by (simp add: docstring_example_def)
  from C8_one_record_per_emitted_leaf [OF r p ws d]
  obtain docs where docs: "load ?env ?self = Inr docs" "length docs = 2"
    and each: "\<forall>n < length docs. page_content (docs ! n) =
                 dumps (float_repr ?env) (JObj [(butlast (fst (?ws ! n)), emitted_leaves (docstring_example :: unit json) ! n)])"
    unfolding leaves by auto
  from each docs(2) have
    "page_content (docs ! 0) = dumps (float_repr ?env) (JObj [(''key_value1_text'', JStr ''value1'')])"
    "page_content (docs ! 1) = dumps (float_repr ?env) (JObj [(''key_value2_text'', JStr ''value2'')])"
    by (simp_all add: leaves)
  then have
    \<open>page_content (docs ! 0) = ''{"key_value1_text": "value1"}''\<close>
    \<open>page_content (docs ! 1) = ''{"key_value2_text": "value2"}''\<close>
    by (simp_all add: encode_str_def escape_char_def)
  with docs r p ws leaves show ?thesis by auto
qed

text \<open>
  C8, as stated, fails. In
  \<^verbatim>\<open>[{"identifier": "t", "t": "x", "v": 1}, {"identifier": "t", "t": "x", "v": 2}]\<close>
  every array element has a resolvable identifier (\<^verbatim>\<open>x\<close>) and the number 1 is a scalar
  leaf, but \<^verbatim>\<open>load\<close> yields two records, for \<^verbatim>\<open>x\<close> and for 2: both elements write the
  keys \<^verbatim>\<open>x_t\<close> and \<^verbatim>\<open>x_v\<close>. In the docstring example the leaf \<^verbatim>\<open>text\<close>, the value of
  an \<^verbatim>\<open>"identifier"\<close> entry, is skipped.
\<close>

theorem C8_counterexample:
  \<open>lookup_identifier (JObj [(''identifier'', JStr ''t''), (''t'', JStr ''x''), (''v'', JInt 1)]
      :: unit json) = Some (JStr ''x'')
   \<and> lookup_identifier (JObj [(''identifier'', JStr ''t''), (''t'', JStr ''x''), (''v'', JInt 2)]
      :: unit json) = Some (JStr ''x'')
   \<and> scalar_leaves (same_identifier_example :: unit json) =
       [JStr ''t'', JStr ''x'', JInt 1, JStr ''t'', JStr ''x'', JInt 2]
   \<and> load (file_env ''/data.json''
            ''[{"identifier": "t", "t": "x", "v": 1}, {"identifier": "t", "t": "x", "v": 2}]''
            (same_identifier_example :: unit json))
          \<lparr>file_path = ''/data.json'', metadata_func = None\<rparr> =
        Inr [\<lparr>page_content = ''{"x_t": "x"}'',
              metadata = [(''source'', JStr ''/data.json''), (''seq_num'', JInt 1)]\<rparr>,
             \<lparr>page_content = ''{"x_v": 2}'',
              metadata = [(''source'', JStr ''/data.json''), (''seq_num'', JInt 2)]\<rparr>]
   \<and> JStr ''text'' \<in> set (scalar_leaves (docstring_example :: unit json))
   \<and> flatten_json (docstring_example :: unit json) [] [] =
       Inr [(''key_value1_text'', JStr ''value1''), (''key_value2_text'', JStr ''value2'')]\<close>
  by (simp add: same_identifier_example_def docstring_example_def load_def
      flatten_nested_json_def file_env_def identifier_of_def make_document_def
      dict_or_empty_def encode_str_def escape_char_def str_int_def str_nat.simps)

text \<open>
  C9. The claim: \<^verbatim>\<open>load\<close> either fails with one of the two error kinds (unreadable
  file, malformed JSON) or returns the complete record sequence. A readable file holding
  the well-formed JSON \<^verbatim>\<open>[{"identifier": "n", "n": 5}]\<close> makes \<^verbatim>\<open>load\<close> fail with a
  third kind, the \<^verbatim>\<open>TypeError\<close> raised by the flattener (lemma \<open>load_outcomes\<close> lists
  all four outcomes).
\<close>

theorem C9_load_raises_type_error:
  \<open>load (file_env ''/data.json'' ''[{"identifier": "n", "n": 5}]''
           (numeric_identifier_example :: unit json))
      \<lparr>file_path = ''/data.json'', metadata_func = None\<rparr> = Inl TypeError\<close>
  by (simp add: load_def flatten_nested_json_def file_env_def numeric_identifier_example_def
      identifier_of_def)

text \<open>
  C10. When the root of the document is a bare scalar (string, number, boolean or null),
  flattening yields the single entry from the empty key to that scalar, and \<^verbatim>\<open>load\<close>
  yields exactly one record, with sequence number 1, whose payload is the serialisation
  of that single-entry mapping.
\<close>

theorem C10_scalar_root:
  assumes "is_scalar v"
    and "read_text env (file_path self) = Some json_text"
    and "json_loads env json_text = Some v"
  shows "flatten_json v [] [] = Inr [([], v)]
         \<and> load env self =
             Inr [\<lparr>page_content = dumps (float_repr env) (JObj [([], v)]),
                   metadata = [(''source'', JStr (file_path self)), (''seq_num'', JInt 1)]\<rparr>]"
proof -
  have f: "flatten_json v [] [] = Inr [([], v)]"
    using assms(1) by (cases v) simp_all
  show ?thesis
    using assms(2,3) f
    by (simp add: load_def flatten_nested_json_def make_document_def dict_or_empty_def)
qed

theorem C10_witness:
  \<open>is_scalar (JNull :: unit json)
   \<and> flatten_json (JNull :: unit json) [] [] = Inr [([], JNull)]
   \<and> load (file_env ''/data.json'' ''null'' (JNull :: unit json))
          \<lparr>file_path = ''/data.json'', metadata_func = None\<rparr> =
        Inr [\<lparr>page_content = ''{"": null}'',
              metadata = [(''source'', JStr ''/data.json''), (''seq_num'', JInt 1)]\<rparr>]\<close>
  using C10_scalar_root [of "JNull :: unit json" "file_env ''/data.json'' ''null'' JNull"
                "\<lparr>file_path = ''/data.json'', metadata_func = None\<rparr>" "''null''"]
  by (simp add: file_env_def encode_str_def)

end
